theory Spec2Isabelle
  imports Complex_Main "HOL-Library.AList"
begin

section \<open>Values of the host language\<close>

text \<open>
  Sizes and coordinates are JavaScript numbers. The program never computes with them: it
  copies them, tests them for truthiness (\<open>a && b\<close>) and compares them with \<open>!==\<close>.
  \<open>NaN\<close> is kept apart because it is falsy and differs from itself; negative zero
  behaves as zero under both tests and is identified with it. An absent property
  (\<open>undefined\<close> or \<open>null\<close>) is \<open>None\<close>.
\<close>

datatype number = NaN | Num real

fun truthy :: "number option \<Rightarrow> bool" where
  "truthy None = False"
| "truthy (Some NaN) = False"
| "truthy (Some (Num r)) = (r \<noteq> 0)"

text \<open>
  The operator \<open>!==\<close> on two optional numbers. The program evaluates it only behind a
  truthy right operand, where \<open>undefined\<close> and \<open>null\<close> on the left give the same answer.
\<close>

fun strict_neq :: "number option \<Rightarrow> number option \<Rightarrow> bool" where
  "strict_neq None None = False"
| "strict_neq (Some (Num a)) (Some (Num b)) = (a \<noteq> b)"
| "strict_neq _ _ = True"

text \<open>\<open>xs.join(":")\<close> on an array of strings.\<close>

fun join :: "string list \<Rightarrow> string" where
  "join [] = []"
| "join [x] = x"
| "join (x # y # ys) = x @ '':'' @ join (y # ys)"

section \<open>The data model\<close>

text \<open>
  Modelled from the spec: the type \<open>Model\<close> is declared in \<open>ModelParser.ts\<close>, which is
  missing from the sources. Its fields are those of section 3 of the specification, of the
  objects the parser's test expects and of the uses in \<open>Renderer.tsx\<close>: a field's type
  is a string or a model, an array of either, or a named reference with arguments.
  \<open>Model\<close> objects refer to each other cyclically (\<open>dependencies\<close>, \<open>dependants\<close>, and
  the models inside schema fields). Every use the program makes of such a reference reads
  its \<open>id\<close>, so a reference is stored as the id of the model it points to.
\<close>

datatype type_or_model = Literal string | ModelRef string

datatype field_type =
    Plain type_or_model
  | Array type_or_model
  | Reference string "type_or_model list"

record schema_field =
  f_name :: string
  f_type :: field_type

record model =
  m_id :: string
  m_name :: string
  m_schema :: "schema_field list"
  m_dependencies :: "string list"
  m_dependants :: "string list"

record xy =
  pos_x :: number
  pos_y :: number

text \<open>
  A React Flow node. \<open>n_data\<close> is \<open>node.data?.model\<close>; \<open>n_other\<close> stands for the
  properties of a node the program never names (\<open>selected\<close>, \<open>dragging\<close>, ...), which
  an object spread copies and a freshly built object does not have.
\<close>

record node =
  n_id :: string
  n_type :: "string option"
  n_data :: "model option"
  n_position :: xy
  n_width :: "number option"
  n_height :: "number option"
  n_other :: "(string \<times> string) list"

record edge =
  e_id :: string
  e_source :: string
  e_target :: string
  e_sourceHandle :: "string option"
  e_other :: "(string \<times> string) list"

text \<open>
  Modelled from the spec: the type \<open>UserOptions\<close> is declared in
  \<open>stores/user-options\<close>, which is missing from the sources. These are the fields of
  \<open>options.renderer\<close> that \<open>Renderer.tsx\<close> reads; a direction that is not horizontal is
  vertical, and a theme is light or dark.
\<close>

datatype direction = Horizontal | Vertical

datatype theme = Light | Dark

record renderer_options =
  o_direction :: direction
  o_autoFitView :: bool
  o_theme :: theme
  o_enableMinimap :: bool

section \<open>The parser's graph of models\<close>

text \<open>
  Modelled from the spec: \<open>ModelParser\<close> (\<open>src/lib/parser/ModelParser.ts\<close>) is missing
  from the sources; only its test file is there. What follows is the field classification
  and the two-pass graph construction of the specification (sections 4.2 and 4.3), run
  on declarations that are already read: a name and, for each property, the shape of its
  type expression with the text of the names in it. On one point the test file decides
  against the specification's wording: \<open>it("parses references")\<close> expects, for
  \<open>type C = { c: Map<A, A> }\<close>, the dependencies \<open>[A]\<close> of \<open>C\<close> and no second \<open>C\<close>
  among the dependants of \<open>A\<close>. So the models that one field refers to are collected as
  a set, in the order of their first occurrence, before they are linked; between the
  fields of a declaration nothing is removed, as section 4.3 has it.
  Declarations that share a name are left open by the specification; here every model of
  that name is updated, and the theorems below are about declarations with distinct names.
\<close>

datatype raw_type =
    ArrayType string
  | GenericType string "string list"
  | NamedType string

record raw_field =
  rf_name :: string
  rf_type :: raw_type

record raw_declaration =
  d_name :: string
  d_fields :: "raw_field list"

text \<open>
  Modelled from the spec: \<open>ModelParser.ts\<close> is missing. A name in a type expression
  that matches a declared name is that model, any other is the text itself (section 4.2).
\<close>

definition resolve :: "string list \<Rightarrow> string \<Rightarrow> type_or_model" where
  "resolve declaredNames t = (if t \<in> set declaredNames then ModelRef t else Literal t)"

text \<open>
  Modelled from the spec: \<open>ModelParser.ts\<close> is missing. The four cases of section 4.2:
  an array by its element, a generic by its name and its arguments, each resolved on its
  own, a bare name that is declared as a direct reference, anything else as its text.
\<close>

definition classify :: "string list \<Rightarrow> raw_field \<Rightarrow> schema_field" where
  "classify declaredNames rawField =
    \<lparr>f_name = rf_name rawField,
     f_type =
       (case rf_type rawField of
          ArrayType t \<Rightarrow> Array (resolve declaredNames t)
        | GenericType r arguments \<Rightarrow> Reference r (map (resolve declaredNames) arguments)
        | NamedType t \<Rightarrow> Plain (resolve declaredNames t))\<rparr>"

text \<open>The models one field refers to, in the order the field names them.\<close>

fun model_ids :: "type_or_model list \<Rightarrow> string list" where
  "model_ids [] = []"
| "model_ids (ModelRef t # rest) = t # model_ids rest"
| "model_ids (Literal t # rest) = model_ids rest"

fun references :: "field_type \<Rightarrow> string list" where
  "references (Plain t) = model_ids [t]"
| "references (Array t) = model_ids [t]"
| "references (Reference r arguments) = model_ids arguments"

text \<open>
  Modelled from the spec: \<open>ModelParser.ts\<close> is missing. \<open>Set.add\<close> on a set that
  remembers the order of insertion, and the models one field refers to, each once: the
  test \<open>it("parses references")\<close> expects one entry for the field \<open>c: Map<A, A>\<close>.
\<close>

definition Set_add :: "'a list \<Rightarrow> 'a \<Rightarrow> 'a list" where
  "Set_add s v = (if v \<in> set s then s else s @ [v])"

definition field_references :: "schema_field \<Rightarrow> string list" where
  "field_references field = foldl Set_add [] (references (f_type field))"

text \<open>
  Modelled from the spec: \<open>ModelParser.ts\<close> is missing. The references of a schema in
  the order of its fields, with no deduplication between fields (section 4.3).
\<close>

definition schema_references :: "schema_field list \<Rightarrow> string list" where
  "schema_references schema = concat (map field_references schema)"

text \<open>
  Modelled from the spec: \<open>ModelParser.ts\<close> is missing. The empty model of the first
  pass of section 4.3.
\<close>

definition placeholder :: "raw_declaration \<Rightarrow> model" where
  "placeholder d =
    \<lparr>m_id = d_name d, m_name = d_name d, m_schema = [], m_dependencies = [], m_dependants = []\<rparr>"

text \<open>
  Modelled from the spec: \<open>ModelParser.ts\<close> is missing. Model \<open>source\<close> depends on
  model \<open>target\<close>: the target is appended to the dependencies of the one and the source
  to the dependants of the other (section 4.3).
\<close>

definition link :: "string \<Rightarrow> model list \<Rightarrow> string \<Rightarrow> model list" where
  "link source models target =
    map (\<lambda>m. m\<lparr>m_dependencies :=
                  (if m_id m = source then m_dependencies m @ [target] else m_dependencies m),
                m_dependants :=
                  (if m_id m = target then m_dependants m @ [source] else m_dependants m)\<rparr>)
      models"

text \<open>
  Modelled from the spec: \<open>ModelParser.ts\<close> is missing. The second pass of section 4.3
  for one declaration: its fields are classified against all declared names and become
  the schema of its model, then the model is linked to each model it refers to.
\<close>

definition build_model :: "string list \<Rightarrow> model list \<Rightarrow> raw_declaration \<Rightarrow> model list" where
  "build_model declaredNames models d =
    (let schema = map (classify declaredNames) (d_fields d);
         models' = map (\<lambda>m. if m_id m = d_name d then m\<lparr>m_schema := schema\<rparr> else m) models
     in foldl (link (d_name d)) models' (schema_references schema))"

text \<open>
  Modelled from the spec: \<open>ModelParser.getModels\<close> is missing. First a placeholder for
  every declaration, then the second pass over the declarations in their order.
\<close>

definition getModels :: "raw_declaration list \<Rightarrow> model list" where
  "getModels declarations =
    (let declaredNames = map d_name declarations;
         placeholders = map placeholder declarations
     in foldl (build_model declaredNames) placeholders declarations)"

text \<open>A field resolves to a model directly, as the element of an array, or as an argument.\<close>

fun resolves_to :: "field_type \<Rightarrow> string \<Rightarrow> bool" where
  "resolves_to (Plain t) i = (t = ModelRef i)"
| "resolves_to (Array t) i = (t = ModelRef i)"
| "resolves_to (Reference r arguments) i = (ModelRef i \<in> set arguments)"

section \<open>The layout request and its result\<close>

record port =
  p_id :: string
  p_order :: nat
  p_properties :: "(string \<times> string) list"

text \<open>
  A child of the request graph: the node's own properties (\<open>...node\<close>), then \<open>width\<close>,
  \<open>height\<close> and \<open>ports\<close>, then \<open>x\<close> and \<open>y\<close> for a manually moved node only.
\<close>

record elk_child =
  c_node :: node
  c_width :: number
  c_height :: number
  c_ports :: "port list option"
  c_x :: "number option"
  c_y :: "number option"

record elk_edge =
  ee_edge :: edge
  ee_sources :: "string list"
  ee_targets :: "string list"

record elk_graph =
  g_id :: string
  g_layoutOptions :: "(string \<times> string) list"
  g_children :: "elk_child list"
  g_edges :: "elk_edge list"

text \<open>What the layout algorithm hands back: the root's \<open>children\<close>, each an \<open>ElkNode\<close>.\<close>

record elk_node =
  l_id :: string
  l_x :: "number option"
  l_y :: "number option"
  l_width :: "number option"
  l_height :: "number option"

record elk_root =
  r_children :: "elk_node list option"

definition elkOptions :: "renderer_options \<Rightarrow> (string \<times> string) list" where
  "elkOptions options =
    [(''elk.algorithm'', ''layered''),
     (''elk.direction'', if o_direction options = Horizontal then ''RIGHT'' else ''DOWN''),
     (''elk.edgeRouting'', ''ORTHOGONAL''),
     (''elk.insideSelfLoops.activate'', ''false''),
     (''elk.interactiveLayout'', ''true''),
     (''elk.layered.crossingMinimization.semiInteractive'', ''true''),
     (''elk.layered.cycleBreaking.strategy'', ''INTERACTIVE''),
     (''elk.layered.layering.strategy'', ''INTERACTIVE''),
     (''elk.layered.nodePlacement.strategy'', ''INTERACTIVE''),
     (''elk.layered.spacing.edgeNodeBetweenLayers'', ''30''),
     (''elk.layered.spacing.nodeNodeBetweenLayers'', ''30''),
     (''elk.spacing.nodeNode'', ''50''),
     (''elk.spacing.componentComponent'', ''50''),
     (''elk.separateConnectedComponents'', ''false'')]"

text \<open>The callback of \<open>schema.map((field, index) => ...)\<close>, with the index passed along.\<close>

fun ports_from :: "string \<Rightarrow> nat \<Rightarrow> schema_field list \<Rightarrow> port list" where
  "ports_from nid index [] = []"
| "ports_from nid index (field # rest) =
    \<lparr>p_id = nid @ ''-'' @ f_name field,
     p_order = index,
     p_properties = [(''port.side'', ''EAST'')]\<rparr> # ports_from nid (Suc index) rest"

definition graph_child :: "string set \<Rightarrow> node \<Rightarrow> elk_child" where
  "graph_child manuallyMovedNodesSet node =
    (let wasManuallyMoved = n_id node \<in> manuallyMovedNodesSet in
     \<lparr>c_node = node,
      c_width = (case n_width node of None \<Rightarrow> Num 0 | Some w \<Rightarrow> w),
      c_height = (case n_height node of None \<Rightarrow> Num 0 | Some h \<Rightarrow> h),
      c_ports = map_option (\<lambda>m. ports_from (n_id node) 0 (m_schema m)) (n_data node),
      c_x = (if wasManuallyMoved then Some (pos_x (n_position node)) else None),
      c_y = (if wasManuallyMoved then Some (pos_y (n_position node)) else None)\<rparr>)"

definition graph_edge :: "edge \<Rightarrow> elk_edge" where
  "graph_edge edge =
    \<lparr>ee_edge = edge,
     ee_sources = [case e_sourceHandle edge of None \<Rightarrow> e_source edge | Some h \<Rightarrow> h],
     ee_targets = [e_target edge]\<rparr>"

definition graph :: "node list \<Rightarrow> edge list \<Rightarrow> renderer_options \<Rightarrow> string set \<Rightarrow> elk_graph" where
  "graph nodes edges options manuallyMovedNodesSet =
    \<lparr>g_id = ''root'',
     g_layoutOptions = elkOptions options,
     g_children = map (graph_child manuallyMovedNodesSet) nodes,
     g_edges = map graph_edge edges\<rparr>"

text \<open>\<open>layoutedGraph.children?.find((n) => n.id === node.id)\<close>\<close>

definition find_layouted :: "elk_root \<Rightarrow> node \<Rightarrow> elk_node option" where
  "find_layouted layoutedGraph node =
    (case r_children layoutedGraph of
       None \<Rightarrow> None
     | Some ns \<Rightarrow> find (\<lambda>n. l_id n = n_id node) ns)"

text \<open>
  The callback of the final \<open>nodes.map\<close>: a node the algorithm did not return is passed
  through; any other node is rebuilt from \<open>id\<close>, \<open>type\<close>, \<open>data\<close>, a position and,
  when both are truthy, the computed \<open>width\<close> and \<open>height\<close>.
\<close>

definition layouted_node :: "elk_root \<Rightarrow> string set \<Rightarrow> node \<Rightarrow> node" where
  "layouted_node layoutedGraph manuallyMovedNodesSet node =
    (case find_layouted layoutedGraph node of
       None \<Rightarrow> node
     | Some layoutedNode \<Rightarrow>
        (let hasManuallyMoved = n_id node \<in> manuallyMovedNodesSet;
             sized = truthy (l_width layoutedNode) \<and> truthy (l_height layoutedNode) in
         \<lparr>n_id = n_id node,
          n_type = n_type node,
          n_data = n_data node,
          n_position =
            \<lparr>pos_x = (if hasManuallyMoved then pos_x (n_position node)
                      else case l_x layoutedNode of None \<Rightarrow> pos_x (n_position node) | Some v \<Rightarrow> v),
             pos_y = (if hasManuallyMoved then pos_y (n_position node)
                      else case l_y layoutedNode of None \<Rightarrow> pos_y (n_position node) | Some v \<Rightarrow> v)\<rparr>,
          n_width = (if sized then l_width layoutedNode else None),
          n_height = (if sized then l_height layoutedNode else None),
          n_other = []\<rparr>))"

text \<open>The part of \<open>getLayoutedElements\<close> that runs once the layout has been delivered.\<close>

definition layouted :: "elk_root \<Rightarrow> node list \<Rightarrow> edge list \<Rightarrow> string set \<Rightarrow> node list \<times> edge list" where
  "layouted layoutedGraph nodes edges manuallyMovedNodesSet =
    (map (layouted_node layoutedGraph manuallyMovedNodesSet) nodes, edges)"

text \<open>
  \<open>getLayoutedElements\<close>. The layout algorithm is a parameter \<open>layout\<close>; \<open>None\<close> is a
  promise that is rejected, after which nothing is returned. The set of manually moved
  nodes is one shared mutable object, read once before the \<open>await\<close> and once after it,
  so the model takes its content at both moments.
\<close>

definition getLayoutedElements ::
  "(elk_graph \<Rightarrow> elk_root option) \<Rightarrow> node list \<Rightarrow> edge list \<Rightarrow> renderer_options \<Rightarrow>
     string set \<Rightarrow> string set \<Rightarrow> (node list \<times> edge list) option" where
  "getLayoutedElements layout nodes edges options movedBefore movedAfter =
    (case layout (graph nodes edges options movedBefore) of
       None \<Rightarrow> None
     | Some layoutedGraph \<Rightarrow> Some (layouted layoutedGraph nodes edges movedAfter))"

section \<open>From the model graph to nodes and edges\<close>

definition extractModelNodes :: "model list \<Rightarrow> node list" where
  "extractModelNodes models =
    map (\<lambda>model.
      \<lparr>n_id = m_id model,
       n_type = Some ''model'',
       n_data = Some model,
       n_position = \<lparr>pos_x = Num (- 1), pos_y = Num (- 1)\<rparr>,
       n_width = None,
       n_height = None,
       n_other = []\<rparr>) models"

text \<open>The decimal rendering of the edge counter inside a template string.\<close>

fun string_of_nat :: "nat \<Rightarrow> string" where
  "string_of_nat n =
    (if n < 10 then [char_of (48 + n)]
     else string_of_nat (n div 10) @ [char_of (48 + n mod 10)])"

declare string_of_nat.simps [simp del]

text \<open>
  The loops of \<open>extractModelEdges\<close> thread the array \<open>result\<close> and the counter \<open>count\<close>.
  A field of a model is exactly one of the three shapes, so at most one of the three
  tests of the loop body succeeds for it.
\<close>

definition push_edge ::
  "(string \<times> string) list \<Rightarrow> model \<Rightarrow> schema_field \<Rightarrow> string \<Rightarrow> string \<Rightarrow>
     edge list \<times> nat \<Rightarrow> edge list \<times> nat" where
  "push_edge sharedEdgeProps model field suffix target acc =
    (case acc of (result, count) \<Rightarrow>
      (result @
        [\<lparr>e_id = string_of_nat count @ ''-'' @ m_id model @ ''-'' @ f_name field @ suffix,
          e_source = m_id model,
          e_target = target,
          e_sourceHandle = Some (m_id model @ ''-'' @ f_name field),
          e_other = sharedEdgeProps\<rparr>],
       Suc count))"

fun argument_edges ::
  "(string \<times> string) list \<Rightarrow> model \<Rightarrow> schema_field \<Rightarrow> type_or_model list \<Rightarrow>
     edge list \<times> nat \<Rightarrow> edge list \<times> nat" where
  "argument_edges shared model field [] acc = acc"
| "argument_edges shared model field (ModelRef a # arguments) acc =
    argument_edges shared model field arguments
      (push_edge shared model field (''-'' @ a) a acc)"
| "argument_edges shared model field (Literal t # arguments) acc =
    argument_edges shared model field arguments acc"

fun field_edges ::
  "(string \<times> string) list \<Rightarrow> model \<Rightarrow> schema_field \<Rightarrow> field_type \<Rightarrow>
     edge list \<times> nat \<Rightarrow> edge list \<times> nat" where
  "field_edges shared model field (Plain (ModelRef t)) acc = push_edge shared model field [] t acc"
| "field_edges shared model field (Plain (Literal t)) acc = acc"
| "field_edges shared model field (Array (ModelRef t)) acc = push_edge shared model field [] t acc"
| "field_edges shared model field (Array (Literal t)) acc = acc"
| "field_edges shared model field (Reference r arguments) acc =
    argument_edges shared model field arguments acc"

definition model_edges ::
  "(string \<times> string) list \<Rightarrow> edge list \<times> nat \<Rightarrow> model \<Rightarrow> edge list \<times> nat" where
  "model_edges shared acc model =
    foldl (\<lambda>acc field. field_edges shared model field (f_type field) acc) acc (m_schema model)"

definition extractModelEdges :: "model list \<Rightarrow> (string \<times> string) list \<Rightarrow> edge list" where
  "extractModelEdges models sharedEdgeProps =
    fst (foldl (model_edges sharedEdgeProps) ([], 1) models)"

definition sharedEdgeProps :: "renderer_options \<Rightarrow> (string \<times> string) list" where
  "sharedEdgeProps options =
    [(''type'', ''custom''),
     (''markerEnd.type'', ''arrowclosed''),
     (''style.stroke'', if o_theme options = Light then ''#a9b2bc'' else ''#7f8084''),
     (''style.strokeWidth'', ''1''),
     (''style.markerEndId'', ''arrow'')]"

section \<open>The renderer\<close>

text \<open>
  \<open>new Map(entries)\<close>: a later entry for a key replaces the value and keeps the key's
  place, so \<open>size\<close> is the length of the list and \<open>get\<close> is \<open>map_of\<close>.
\<close>

definition new_Map :: "('k \<times> 'v) list \<Rightarrow> ('k \<times> 'v) list" where
  "new_Map entries = foldl (\<lambda>m (k, v). AList.update k v m) [] entries"

text \<open>A call of \<open>getLayoutedElements\<close> whose promise is still pending.\<close>

record pending_layout =
  pl_nodes :: "node list"
  pl_edges :: "edge list"
  pl_graph :: elk_graph

text \<open>
  The state of one \<open>Renderer\<close> instance: its React state (\<open>nodes\<close>, \<open>edges\<close>,
  \<open>shouldAnimate\<close>), its refs, the memoised parse result, the user options it shares with
  the rest of the application, and what it has asked of its environment: animation frames
  requested for \<open>handleAutoLayout\<close>, layouts in flight, \<open>updateNodeInternals\<close> calls and
  \<open>fitView\<close> requests.
\<close>

record renderer =
  st_nodes :: "node list"
  st_edges :: "edge list"
  st_models :: "model list"
  st_cachedNodesMap :: "(string \<times> node) list"
  st_manuallyMovedNodesSet :: "string set"
  st_previousEdges :: "edge list"
  st_previousModels :: "(string \<times> model) list"
  st_options :: renderer_options
  st_shouldAnimate :: bool
  st_animationFrames :: nat
  st_inFlight :: "pending_layout list"
  st_updateNodeInternals :: "string list"
  st_fitViews :: nat

definition initial :: "renderer_options \<Rightarrow> renderer" where
  "initial options =
    \<lparr>st_nodes = [], st_edges = [], st_models = [],
     st_cachedNodesMap = [], st_manuallyMovedNodesSet = {},
     st_previousEdges = [], st_previousModels = [],
     st_options = options, st_shouldAnimate = False,
     st_animationFrames = 0, st_inFlight = [],
     st_updateNodeInternals = [], st_fitViews = 0\<rparr>"

subsection \<open>Effects\<close>

text \<open>
  The first layout effect: nodes and edges after parsing, before any layout. The \<open>Map\<close>
  in \<open>cachedNodesMap\<close> and \<open>previousModels\<close> is only ever made by \<open>new Map\<close>.
\<close>

definition updatedNode :: "(string \<times> node) list \<Rightarrow> node \<Rightarrow> node" where
  "updatedNode cachedNodesMap node =
    (case map_of cachedNodesMap (n_id node) of
       None \<Rightarrow> node
     | Some cachedNode \<Rightarrow>
         if n_type cachedNode = n_type node \<and> truthy (n_width cachedNode)
            \<and> truthy (n_height cachedNode)
         then node\<lparr>n_width := n_width cachedNode, n_height := n_height cachedNode,
                   n_position := n_position cachedNode\<rparr>
         else node\<lparr>n_position := n_position cachedNode\<rparr>)"

definition parse_effect :: "renderer \<Rightarrow> renderer" where
  "parse_effect s =
    s\<lparr>st_nodes := map (updatedNode (st_cachedNodesMap s)) (extractModelNodes (st_models s)),
      st_edges := extractModelEdges (st_models s) (sharedEdgeProps (st_options s))\<rparr>"

text \<open>
  The second layout effect decides whether a layout is needed. \<open>size_differs\<close> is the
  condition inside its loop, with \<open>previousNode?.width\<close> absent when there is no
  previous node; \<open>some_size_differs\<close> is the loop, leaving at the first hit.
\<close>

definition size_differs :: "node option \<Rightarrow> node \<Rightarrow> bool" where
  "size_differs previousNode node =
    (let previousWidth = (case previousNode of None \<Rightarrow> None | Some p \<Rightarrow> n_width p);
         previousHeight = (case previousNode of None \<Rightarrow> None | Some p \<Rightarrow> n_height p) in
     (truthy previousWidth \<and> strict_neq (n_width node) previousWidth) \<or>
     (truthy previousHeight \<and> strict_neq (n_height node) previousHeight))"

fun some_size_differs :: "(string \<times> node) list \<Rightarrow> node list \<Rightarrow> bool" where
  "some_size_differs cachedNodesMap [] = False"
| "some_size_differs cachedNodesMap (node # rest) =
    (if size_differs (map_of cachedNodesMap (n_id node)) node then True
     else some_size_differs cachedNodesMap rest)"

definition needsAutoLayout :: "renderer \<Rightarrow> bool" where
  "needsAutoLayout s =
    (if length (st_previousEdges s) \<noteq> length (st_edges s) then True
     else if length (st_nodes s) = length (st_cachedNodesMap s)
       then some_size_differs (st_cachedNodesMap s) (st_nodes s)
     else True)"

definition relayout_effect :: "renderer \<Rightarrow> renderer" where
  "relayout_effect s =
    s\<lparr>st_previousEdges :=
        (if length (st_previousEdges s) \<noteq> length (st_edges s) then st_edges s
         else st_previousEdges s),
      st_cachedNodesMap := new_Map (map (\<lambda>node. (n_id node, node)) (st_nodes s)),
      st_animationFrames :=
        (if needsAutoLayout s then Suc (st_animationFrames s) else st_animationFrames s)\<rparr>"

text \<open>
  The effect on the model graph: the ids passed to \<open>updateNodeInternals\<close>, in the order
  of the loop over \<open>models\<close>.
\<close>

fun changedInternals :: "(string \<times> model) list \<Rightarrow> model list \<Rightarrow> string list" where
  "changedInternals previousModels [] = []"
| "changedInternals previousModels (model # rest) =
    (case map_of previousModels (m_id model) of
       None \<Rightarrow> changedInternals previousModels rest
     | Some previousModel \<Rightarrow>
         (let previousDependantsHash = join (m_dependants previousModel);
              currentDependantsHash = join (m_dependants model);
              previousDependenciesHash = join (m_dependencies previousModel);
              currentDependenciesHash = join (m_dependencies model) in
          if previousDependantsHash \<noteq> currentDependantsHash
             \<or> previousDependenciesHash \<noteq> currentDependenciesHash
          then m_id model # changedInternals previousModels rest
          else changedInternals previousModels rest))"

definition topology_effect :: "renderer \<Rightarrow> renderer" where
  "topology_effect s =
    s\<lparr>st_updateNodeInternals :=
        st_updateNodeInternals s @ changedInternals (st_previousModels s) (st_models s),
      st_previousModels := new_Map (map (\<lambda>model. (m_id model, model)) (st_models s))\<rparr>"

subsection \<open>Handlers\<close>

definition nodeToLayout :: "(string \<times> node) list \<Rightarrow> node \<Rightarrow> node" where
  "nodeToLayout cachedNodesMap node =
    (case map_of cachedNodesMap (n_id node) of
       None \<Rightarrow> node
     | Some cachedNode \<Rightarrow>
         node\<lparr>n_width := (case n_width node of None \<Rightarrow> n_width cachedNode | Some w \<Rightarrow> Some w),
              n_height := (case n_height node of None \<Rightarrow> n_height cachedNode | Some h \<Rightarrow> Some h)\<rparr>)"

text \<open>
  \<open>handleAutoLayout\<close> up to the \<open>await\<close> inside \<open>getLayoutedElements\<close>: the request is
  built from the current nodes and edges (\<open>getNodes()\<close> and \<open>getEdges()\<close> give what was
  last set) and joins the layouts in flight.
\<close>

definition handleAutoLayout :: "renderer \<Rightarrow> renderer" where
  "handleAutoLayout s =
    (let nodesToLayout = map (nodeToLayout (st_cachedNodesMap s)) (st_nodes s) in
     s\<lparr>st_inFlight := st_inFlight s @
         [\<lparr>pl_nodes = nodesToLayout,
           pl_edges = st_edges s,
           pl_graph = graph nodesToLayout (st_edges s) (st_options s)
                        (st_manuallyMovedNodesSet s)\<rparr>]\<rparr>)"

text \<open>
  The rest of \<open>handleAutoLayout\<close>: the \<open>k\<close>-th layout in flight delivers \<open>layoutedGraph\<close>,
  and the \<open>then\<close> callback stores the nodes and edges and may ask for \<open>fitView\<close>.
\<close>

definition layout_resolved :: "nat \<Rightarrow> elk_root \<Rightarrow> renderer \<Rightarrow> renderer" where
  "layout_resolved k layoutedGraph s =
    (if k < length (st_inFlight s) then
       (let p = st_inFlight s ! k;
            r = layouted layoutedGraph (pl_nodes p) (pl_edges p) (st_manuallyMovedNodesSet s) in
        s\<lparr>st_nodes := fst r,
          st_edges := snd r,
          st_fitViews := (if o_autoFitView (st_options s) then Suc (st_fitViews s)
                          else st_fitViews s),
          st_inFlight := take k (st_inFlight s) @ drop (Suc k) (st_inFlight s)\<rparr>)
     else s)"

definition layout_rejected :: "nat \<Rightarrow> renderer \<Rightarrow> renderer" where
  "layout_rejected k s =
    s\<lparr>st_inFlight := take k (st_inFlight s) @ drop (Suc k) (st_inFlight s)\<rparr>"

definition handleAutoFitToggle :: "renderer \<Rightarrow> renderer" where
  "handleAutoFitToggle s =
    handleAutoLayout
      (s\<lparr>st_options := (st_options s)\<lparr>o_autoFitView := \<not> o_autoFitView (st_options s)\<rparr>\<rparr>)"

definition handleDirectionToggle :: "renderer \<Rightarrow> renderer" where
  "handleDirectionToggle s =
    handleAutoLayout
      (s\<lparr>st_options := (st_options s)
          \<lparr>o_direction := (if o_direction (st_options s) = Horizontal then Vertical
                            else Horizontal),
           o_autoFitView := True\<rparr>\<rparr>)"

definition handleMouseDown :: "bool \<Rightarrow> renderer \<Rightarrow> renderer" where
  "handleMouseDown insidePanel s =
    (if insidePanel then s
     else s\<lparr>st_options := (st_options s)\<lparr>o_autoFitView := False\<rparr>\<rparr>)"

definition handleMove :: "bool \<Rightarrow> renderer \<Rightarrow> renderer" where
  "handleMove isWheelEvent s =
    (if isWheelEvent then s\<lparr>st_options := (st_options s)\<lparr>o_autoFitView := False\<rparr>\<rparr>
     else s)"

definition handleNodeDragStop :: "node \<Rightarrow> renderer \<Rightarrow> renderer" where
  "handleNodeDragStop node s =
    s\<lparr>st_manuallyMovedNodesSet := insert (n_id node) (st_manuallyMovedNodesSet s)\<rparr>"

subsection \<open>Everything that can happen to a renderer\<close>

text \<open>
  \<open>SourceChanged\<close> carries the models the parser returns for the new source; the commit
  that follows runs the first layout effect and the effect on the model graph.
  \<open>NodesChange\<close> and \<open>EdgesChange\<close> carry the state React Flow computes from its own
  changes (measured sizes, dragged positions). \<open>Commit\<close> is the second layout effect,
  run after a commit that changed the nodes or the edges; \<open>AnimationFrame\<close> runs one
  requested \<open>handleAutoLayout\<close>.
\<close>

datatype event =
    SourceChanged "model list"
  | NodesChange "node list"
  | EdgesChange "edge list"
  | Commit
  | AnimationFrame
  | Init
  | LayoutResolved nat elk_root
  | LayoutRejected nat
  | AutoFitToggle
  | DirectionToggle
  | MouseDown bool
  | Move bool
  | NodeDragStop node
  | Mounted

fun step :: "event \<Rightarrow> renderer \<Rightarrow> renderer" where
  "step (SourceChanged models) s = topology_effect (parse_effect (s\<lparr>st_models := models\<rparr>))"
| "step (NodesChange nodes) s = s\<lparr>st_nodes := nodes\<rparr>"
| "step (EdgesChange edges) s = s\<lparr>st_edges := edges\<rparr>"
| "step Commit s = relayout_effect s"
| "step AnimationFrame s =
    (if st_animationFrames s = 0 then s
     else handleAutoLayout (s\<lparr>st_animationFrames := st_animationFrames s - 1\<rparr>))"
| "step Init s = handleAutoLayout s"
| "step (LayoutResolved k layoutedGraph) s = layout_resolved k layoutedGraph s"
| "step (LayoutRejected k) s = layout_rejected k s"
| "step AutoFitToggle s = handleAutoFitToggle s"
| "step DirectionToggle s = handleDirectionToggle s"
| "step (MouseDown insidePanel) s = handleMouseDown insidePanel s"
| "step (Move isWheelEvent) s = handleMove isWheelEvent s"
| "step (NodeDragStop node) s = handleNodeDragStop node s"
| "step Mounted s = s\<lparr>st_shouldAnimate := True\<rparr>"

fun run :: "event list \<Rightarrow> renderer \<Rightarrow> renderer" where
  "run [] s = s"
| "run (e # es) s = run es (step e s)"

section \<open>Example inputs\<close>

definition model_A :: model where
  "model_A =
    \<lparr>m_id = ''A'', m_name = ''A'',
     m_schema = [\<lparr>f_name = ''a'', f_type = Plain (Literal ''string'')\<rparr>,
                 \<lparr>f_name = ''b'', f_type = Array (Literal ''number'')\<rparr>],
     m_dependencies = [], m_dependants = []\<rparr>"

text \<open>A measured node of 100 by 50 at (10, 20), selected in the user interface.\<close>

definition node_A :: node where
  "node_A =
    \<lparr>n_id = ''A'', n_type = Some ''model'', n_data = Some model_A,
     n_position = \<lparr>pos_x = Num 10, pos_y = Num 20\<rparr>,
     n_width = Some (Num 100), n_height = Some (Num 50),
     n_other = [(''selected'', ''true'')]\<rparr>"

definition options_of :: "direction \<Rightarrow> renderer_options" where
  "options_of d =
    \<lparr>o_direction = d, o_autoFitView = True, o_theme = Light, o_enableMinimap = True\<rparr>"

text \<open>A layout algorithm that answers every request with the same graph.\<close>

definition delivers :: "elk_root \<Rightarrow> elk_graph \<Rightarrow> elk_root option" where
  "delivers layoutedGraph g = Some layoutedGraph"

text \<open>A returned graph with one child, for the id \<open>i\<close>, placed at (300, 400).\<close>

definition one_child :: "string \<Rightarrow> number option \<Rightarrow> number option \<Rightarrow> elk_root" where
  "one_child i w h =
    \<lparr>r_children = Some [\<lparr>l_id = i, l_x = Some (Num 300), l_y = Some (Num 400),
                          l_width = w, l_height = h\<rparr>]\<rparr>"

text \<open>The node of \<open>model_A\<close> as \<open>extractModelNodes\<close> makes it: not yet measured.\<close>

definition unmeasured_A :: node where
  "unmeasured_A =
    \<lparr>n_id = ''A'', n_type = Some ''model'', n_data = Some model_A,
     n_position = \<lparr>pos_x = Num (- 1), pos_y = Num (- 1)\<rparr>,
     n_width = None, n_height = None, n_other = []\<rparr>"

definition first_measurement :: renderer where
  "first_measurement =
    run [SourceChanged [model_A], Commit,
         NodesChange [unmeasured_A\<lparr>n_width := Some (Num 100), n_height := Some (Num 50)\<rparr>]]
      (initial (options_of Horizontal))"

definition height_changed :: renderer where
  "height_changed =
    run [Commit,
         NodesChange [unmeasured_A\<lparr>n_width := Some (Num 100), n_height := Some (Num 60)\<rparr>]]
      first_measurement"

text \<open>Two parse results over the same names; the second has lost the reference to \<open>A\<close>.\<close>

definition linked_models :: "model list" where
  "linked_models =
    [\<lparr>m_id = ''A'', m_name = ''A'', m_schema = [],
      m_dependencies = [], m_dependants = [''B'']\<rparr>,
     \<lparr>m_id = ''B'', m_name = ''B'',
      m_schema = [\<lparr>f_name = ''field'', f_type = Plain (ModelRef ''A'')\<rparr>],
      m_dependencies = [''A''], m_dependants = []\<rparr>,
     \<lparr>m_id = ''C'', m_name = ''C'', m_schema = [],
      m_dependencies = [], m_dependants = []\<rparr>]"

definition unlinked_models :: "model list" where
  "unlinked_models =
    [\<lparr>m_id = ''A'', m_name = ''A'', m_schema = [],
      m_dependencies = [], m_dependants = []\<rparr>,
     \<lparr>m_id = ''B'', m_name = ''B'',
      m_schema = [\<lparr>f_name = ''field'', f_type = Plain (Literal ''string'')\<rparr>],
      m_dependencies = [], m_dependants = []\<rparr>,
     \<lparr>m_id = ''C'', m_name = ''C'', m_schema = [],
      m_dependencies = [], m_dependants = []\<rparr>,
     \<lparr>m_id = ''D'', m_name = ''D'',
      m_schema = [\<lparr>f_name = ''d'', f_type = Plain (ModelRef ''D'')\<rparr>],
      m_dependencies = [''D''], m_dependants = [''D'']\<rparr>]"

definition dragged :: renderer where
  "dragged =
    run [SourceChanged [model_A], Commit, NodeDragStop unmeasured_A, AnimationFrame]
      (initial (options_of Horizontal))"

text \<open>
  The declarations behind the inputs of the parser's tests, in the order of the test
  file: \<open>interface A { a: string; }; type B = { b: string };\<close>, then
  \<open>type A = string; type B = { field: A };\<close>, \<open>type A = { a: string[] };\<close>,
  \<open>type A = { a: B[] }; type B = { b: string };\<close> and the three declarations of
  \<open>it("parses references")\<close>. The last one is a model that refers to itself.
\<close>

definition top_level :: "raw_declaration list" where
  "top_level =
    [\<lparr>d_name = ''A'', d_fields = [\<lparr>rf_name = ''a'', rf_type = NamedType ''string''\<rparr>]\<rparr>,
     \<lparr>d_name = ''B'', d_fields = [\<lparr>rf_name = ''b'', rf_type = NamedType ''string''\<rparr>]\<rparr>]"

definition alias_not_literal :: "raw_declaration list" where
  "alias_not_literal =
    [\<lparr>d_name = ''A'', d_fields = []\<rparr>,
     \<lparr>d_name = ''B'', d_fields = [\<lparr>rf_name = ''field'', rf_type = NamedType ''A''\<rparr>]\<rparr>]"

definition arrays_of_primitives :: "raw_declaration list" where
  "arrays_of_primitives =
    [\<lparr>d_name = ''A'', d_fields = [\<lparr>rf_name = ''a'', rf_type = ArrayType ''string''\<rparr>]\<rparr>]"

definition arrays_of_models :: "raw_declaration list" where
  "arrays_of_models =
    [\<lparr>d_name = ''A'', d_fields = [\<lparr>rf_name = ''a'', rf_type = ArrayType ''B''\<rparr>]\<rparr>,
     \<lparr>d_name = ''B'', d_fields = [\<lparr>rf_name = ''b'', rf_type = NamedType ''string''\<rparr>]\<rparr>]"


definition self_reference :: "raw_declaration list" where
  "self_reference =
    [\<lparr>d_name = ''Item'',
      d_fields = [\<lparr>rf_name = ''value'', rf_type = NamedType ''number''\<rparr>,
                  \<lparr>rf_name = ''next'', rf_type = NamedType ''Item''\<rparr>]\<rparr>]"

section \<open>Vocabulary of the claims\<close>

text \<open>
  Model ids are the names of declarations: identifiers, which are not empty and have no
  colon in them.
\<close>

definition is_identifier :: "string \<Rightarrow> bool" where
  "is_identifier i = (i \<noteq> [] \<and> CHR '':'' \<notin> set i)"

definition well_named :: "model \<Rightarrow> bool" where
  "well_named m = (list_all is_identifier (m_dependants m) \<and> list_all is_identifier (m_dependencies m))"

text \<open>
  The model was in the previous graph, and the sequence of its dependants or the sequence
  of its dependencies is not what it was there.
\<close>

definition topology_changed :: "(string \<times> model) list \<Rightarrow> model \<Rightarrow> bool" where
  "topology_changed previousModels model =
    (case map_of previousModels (m_id model) of
       None \<Rightarrow> False
     | Some previousModel \<Rightarrow>
         m_dependants previousModel \<noteq> m_dependants model
       \<or> m_dependencies previousModel \<noteq> m_dependencies model)"

text \<open>
  The graph of models said in one piece, for the proofs: the schema of a declaration, the
  models as they stand when the declarations \<open>prior\<close> have been built, and the names of
  the declarations that refer to the model \<open>i\<close>.
\<close>

definition schema_of :: "raw_declaration list \<Rightarrow> raw_declaration \<Rightarrow> schema_field list" where
  "schema_of ds d = map (classify (map d_name ds)) (d_fields d)"

definition built :: "raw_declaration list \<Rightarrow> raw_declaration list \<Rightarrow> model list" where
  "built ds prior =
    map (\<lambda>d.
      \<lparr>m_id = d_name d, m_name = d_name d,
       m_schema = (if d_name d \<in> d_name ` set prior then schema_of ds d else []),
       m_dependencies =
         (if d_name d \<in> d_name ` set prior then schema_references (schema_of ds d) else []),
       m_dependants =
         concat (map (\<lambda>d'. concat (map (\<lambda>t. if t = d_name d then [d_name d'] else [])
                                        (schema_references (schema_of ds d')))) prior)\<rparr>) ds"

definition dependants_of :: "raw_declaration list \<Rightarrow> string \<Rightarrow> string list" where
  "dependants_of ds i =
    concat (map (\<lambda>d'. concat (map (\<lambda>t. if t = i then [d_name d'] else [])
                                  (schema_references (schema_of ds d')))) ds)"

section \<open>Properties of the layout step\<close>

lemma find_layouted_None:
  "find_layouted lg node = None \<longleftrightarrow>
     (\<forall>ns. r_children lg = Some ns \<longrightarrow> n_id node \<notin> l_id ` set ns)"
  by (force simp: find_layouted_def find_None_iff split: option.splits)

lemma getLayoutedElements_Some:
  "layout (graph nodes edges options mb) = Some lg \<Longrightarrow>
   getLayoutedElements layout nodes edges options mb ma
     = Some (map (layouted_node lg ma) nodes, edges)"
  by (simp add: getLayoutedElements_def layouted_def)

lemma layouted_node_position:
  "n_id node \<in> moved \<Longrightarrow> n_position (layouted_node lg moved node) = n_position node"
  by (simp add: layouted_node_def Let_def split: option.splits)

text \<open>
  Claim C9. Whenever the layout is delivered, an input node whose id is not the id of any
  child of the returned graph (or when the returned graph has no \<open>children\<close> at all)
  stands in the result at its own index as the very same node: id, type, data, position,
  size and every other property.
\<close>

theorem layout_keeps_missing_node:
  assumes "layout (graph nodes edges options movedBefore) = Some layoutedGraph"
    and "i < length nodes"
    and "\<forall>ns. r_children layoutedGraph = Some ns \<longrightarrow> n_id (nodes ! i) \<notin> l_id ` set ns"
  shows "\<exists>nodes'. getLayoutedElements layout nodes edges options movedBefore movedAfter
                      = Some (nodes', edges)
           \<and> length nodes' = length nodes \<and> nodes' ! i = nodes ! i"
proof -
  from assms(3) have "find_layouted layoutedGraph (nodes ! i) = None"
    by (simp add: find_layouted_None)
  then have "layouted_node layoutedGraph movedAfter (nodes ! i) = nodes ! i"
    by (simp add: layouted_node_def)
  with assms(1,2) show ?thesis
    by (simp add: getLayoutedElements_Some)
qed

theorem layout_keeps_missing_node_witness:
  "(0::nat) < length [node_A]
   \<and> find_layouted (one_child ''B'' None None) ([node_A] ! 0) = None
   \<and> (\<exists>nodes'. getLayoutedElements (delivers (one_child ''B'' None None)) [node_A] []
                    (options_of Horizontal) {} {} = Some (nodes', [])
         \<and> length nodes' = length [node_A] \<and> nodes' ! 0 = [node_A] ! 0)"
proof -
  have h: "\<forall>ns. r_children (one_child ''B'' None None) = Some ns
             \<longrightarrow> n_id ([node_A] ! 0) \<notin> l_id ` set ns"
    by (simp add: one_child_def node_A_def)
  from layout_keeps_missing_node
         [where layout = "delivers (one_child ''B'' None None)" and nodes = "[node_A]"
            and i = 0 and layoutedGraph = "one_child ''B'' None None"
            and edges = "[]" and options = "options_of Horizontal"
            and movedBefore = "{}" and movedAfter = "{}", OF delivers_def _ h]
  show ?thesis
    by (simp add: find_layouted_None one_child_def node_A_def)
qed

text \<open>
  Claim C3. Whenever the layout is delivered, an input node whose id is in the set of
  manually moved nodes (as the set stands when the result is applied) has in the result
  the position it had in the input, whatever the returned graph holds for it.
\<close>

theorem layout_keeps_pinned_position:
  assumes "layout (graph nodes edges options movedBefore) = Some layoutedGraph"
    and "i < length nodes"
    and "n_id (nodes ! i) \<in> movedAfter"
  shows "\<exists>nodes'. getLayoutedElements layout nodes edges options movedBefore movedAfter
                      = Some (nodes', edges)
           \<and> length nodes' = length nodes
           \<and> n_position (nodes' ! i) = n_position (nodes ! i)"
  using assms
  by (simp add: getLayoutedElements_Some layouted_node_position)

theorem layout_keeps_pinned_position_witness:
  "(0::nat) < length [node_A] \<and> n_id ([node_A] ! 0) \<in> {''A''}
   \<and> find_layouted (one_child ''A'' (Some (Num 120)) (Some (Num 60))) node_A
       = Some \<lparr>l_id = ''A'', l_x = Some (Num 300), l_y = Some (Num 400),
               l_width = Some (Num 120), l_height = Some (Num 60)\<rparr>
   \<and> (\<exists>nodes'. getLayoutedElements (delivers (one_child ''A'' (Some (Num 120)) (Some (Num 60))))
                    [node_A] [] (options_of Horizontal) {''A''} {''A''} = Some (nodes', [])
         \<and> length nodes' = length [node_A]
         \<and> n_position (nodes' ! 0) = \<lparr>pos_x = Num 10, pos_y = Num 20\<rparr>)"
proof -
  have h: "n_id ([node_A] ! 0) \<in> {''A''}"
    by (simp add: node_A_def)
  from layout_keeps_pinned_position
         [where layout = "delivers (one_child ''A'' (Some (Num 120)) (Some (Num 60)))"
            and nodes = "[node_A]" and i = 0
            and layoutedGraph = "one_child ''A'' (Some (Num 120)) (Some (Num 60))"
            and edges = "[]" and options = "options_of Horizontal"
            and movedBefore = "{''A''}" and movedAfter = "{''A''}", OF delivers_def _ h]
  show ?thesis
    by (simp add: node_A_def one_child_def find_layouted_def)
qed


text \<open>
  Claim C4, as stated, fails: when the returned graph has the node but does not report
  both sizes, the result is a fresh object without \<open>width\<close> and \<open>height\<close>. Here the
  node measured 100 by 50 and the algorithm reports no size for it.
\<close>

theorem layout_keeps_size_counterexample:
  "getLayoutedElements (delivers (one_child ''A'' None None)) [node_A] []
       (options_of Horizontal) {} {}
     = Some ([\<lparr>n_id = ''A'', n_type = Some ''model'', n_data = Some model_A,
               n_position = \<lparr>pos_x = Num 300, pos_y = Num 400\<rparr>,
               n_width = None, n_height = None, n_other = []\<rparr>], [])
   \<and> n_width node_A = Some (Num 100) \<and> n_height node_A = Some (Num 50)"
  by (simp add: getLayoutedElements_def layouted_def layouted_node_def find_layouted_def
        delivers_def one_child_def node_A_def)

text \<open>
  Claim C4, amended. Whenever the layout is delivered: an input node the returned graph
  does not have is returned as it is, size included; a node the returned graph has
  carries the computed width and height when both are reported and truthy (neither
  absent, zero nor \<open>NaN\<close>), and otherwise carries no width and no height.
\<close>

theorem layout_size_adopted_or_dropped:
  assumes "layout (graph nodes edges options movedBefore) = Some layoutedGraph"
    and "i < length nodes"
  shows "\<exists>nodes'. getLayoutedElements layout nodes edges options movedBefore movedAfter
                      = Some (nodes', edges)
           \<and> length nodes' = length nodes
           \<and> (case find_layouted layoutedGraph (nodes ! i) of
                None \<Rightarrow> nodes' ! i = nodes ! i
              | Some layoutedNode \<Rightarrow>
                  if truthy (l_width layoutedNode) \<and> truthy (l_height layoutedNode)
                  then n_width (nodes' ! i) = l_width layoutedNode
                     \<and> n_height (nodes' ! i) = l_height layoutedNode
                  else n_width (nodes' ! i) = None \<and> n_height (nodes' ! i) = None)"
  using assms
  by (simp add: getLayoutedElements_Some layouted_node_def Let_def split: option.splits)

theorem layout_size_adopted_or_dropped_witness:
  "(0::nat) < length [node_A]
   \<and> (\<exists>nodes'. getLayoutedElements (delivers (one_child ''A'' (Some (Num 120)) (Some (Num 60))))
                    [node_A] [] (options_of Horizontal) {} {} = Some (nodes', [])
         \<and> length nodes' = length [node_A]
         \<and> n_width (nodes' ! 0) = Some (Num 120) \<and> n_height (nodes' ! 0) = Some (Num 60))
   \<and> (\<exists>nodes'. getLayoutedElements (delivers (one_child ''A'' (Some (Num 0)) (Some (Num 60))))
                    [node_A] [] (options_of Horizontal) {} {} = Some (nodes', [])
         \<and> length nodes' = length [node_A]
         \<and> n_width (nodes' ! 0) = None \<and> n_height (nodes' ! 0) = None)"
proof -
  have l: "(0::nat) < length [node_A]"
    by simp
  from layout_size_adopted_or_dropped
         [where layout = "delivers (one_child ''A'' (Some (Num 120)) (Some (Num 60)))"
            and nodes = "[node_A]" and i = 0
            and layoutedGraph = "one_child ''A'' (Some (Num 120)) (Some (Num 60))"
            and edges = "[]" and options = "options_of Horizontal"
            and movedBefore = "{}" and movedAfter = "{}", OF delivers_def l]
  have a: "\<exists>nodes'. getLayoutedElements (delivers (one_child ''A'' (Some (Num 120)) (Some (Num 60))))
                    [node_A] [] (options_of Horizontal) {} {} = Some (nodes', [])
         \<and> length nodes' = length [node_A]
         \<and> n_width (nodes' ! 0) = Some (Num 120) \<and> n_height (nodes' ! 0) = Some (Num 60)"
    by (simp add: node_A_def one_child_def find_layouted_def)
  from layout_size_adopted_or_dropped
         [where layout = "delivers (one_child ''A'' (Some (Num 0)) (Some (Num 60)))"
            and nodes = "[node_A]" and i = 0
            and layoutedGraph = "one_child ''A'' (Some (Num 0)) (Some (Num 60))"
            and edges = "[]" and options = "options_of Horizontal"
            and movedBefore = "{}" and movedAfter = "{}", OF delivers_def l]
  have b: "\<exists>nodes'. getLayoutedElements (delivers (one_child ''A'' (Some (Num 0)) (Some (Num 60))))
                    [node_A] [] (options_of Horizontal) {} {} = Some (nodes', [])
         \<and> length nodes' = length [node_A]
         \<and> n_width (nodes' ! 0) = None \<and> n_height (nodes' ! 0) = None"
    by (simp add: node_A_def one_child_def find_layouted_def)
  from l a b show ?thesis
    by blast
qed

section \<open>Properties of the layout request\<close>

lemma ports_from_length: "length (ports_from nid k fs) = length fs"
  by (induction fs arbitrary: k) auto

lemma ports_from_nth:
  "j < length fs \<Longrightarrow>
   ports_from nid k fs ! j =
     \<lparr>p_id = nid @ ''-'' @ f_name (fs ! j), p_order = k + j,
      p_properties = [(''port.side'', ''EAST'')]\<rparr>"
  by (induction fs arbitrary: k j) (auto simp: nth_Cons split: nat.splits)

text \<open>
  Claim C5, as stated, fails in its last part: the side of a port does not follow the
  configured direction. With the vertical direction the request asks for the layout
  direction \<open>DOWN\<close>, and both ports of the node are still on the side \<open>EAST\<close>.
\<close>

theorem graph_port_side_counterexample:
  "map c_ports (g_children (graph [node_A] [] (options_of Vertical) {}))
     = [Some [\<lparr>p_id = ''A-a'', p_order = 0, p_properties = [(''port.side'', ''EAST'')]\<rparr>,
              \<lparr>p_id = ''A-b'', p_order = 1, p_properties = [(''port.side'', ''EAST'')]\<rparr>]]
   \<and> map_of (g_layoutOptions (graph [node_A] [] (options_of Vertical) {})) ''elk.direction''
       = Some ''DOWN''"
  by (simp add: graph_def graph_child_def elkOptions_def options_of_def node_A_def model_A_def)

text \<open>
  Claim C5, amended. In the layout request built from a node list, a node with a model
  carries exactly one port per schema field; the port of the field at index \<open>j\<close> has the
  order \<open>j\<close> and the id made of the node id and the field name, and is on the side
  \<open>EAST\<close> whatever the configured direction. The direction decides the option
  \<open>elk.direction\<close> of the request: \<open>RIGHT\<close> when horizontal, \<open>DOWN\<close> when vertical.
\<close>

theorem graph_ports:
  assumes "i < length nodes" and "n_data (nodes ! i) = Some m"
  shows "\<exists>ports. c_ports (g_children (graph nodes edges options moved) ! i) = Some ports
           \<and> length ports = length (m_schema m)
           \<and> (\<forall>j < length (m_schema m).
                 p_id (ports ! j) = n_id (nodes ! i) @ ''-'' @ f_name (m_schema m ! j)
               \<and> p_order (ports ! j) = j
               \<and> p_properties (ports ! j) = [(''port.side'', ''EAST'')])
           \<and> map_of (g_layoutOptions (graph nodes edges options moved)) ''elk.direction''
               = Some (if o_direction options = Horizontal then ''RIGHT'' else ''DOWN'')"
  using assms
  by (simp add: graph_def graph_child_def Let_def ports_from_length ports_from_nth
        elkOptions_def)

theorem graph_ports_witness:
  "(0::nat) < length [node_A] \<and> n_data ([node_A] ! 0) = Some model_A
   \<and> (\<exists>ports. c_ports (g_children (graph [node_A] [] (options_of Horizontal) {}) ! 0) = Some ports
         \<and> length ports = 2
         \<and> p_id (ports ! 1) = ''A-b'' \<and> p_order (ports ! 1) = 1
         \<and> p_properties (ports ! 1) = [(''port.side'', ''EAST'')]
         \<and> map_of (g_layoutOptions (graph [node_A] [] (options_of Horizontal) {})) ''elk.direction''
               = Some ''RIGHT'')"
proof -
  have l: "(0::nat) < length [node_A]"
    by simp
  have d: "n_data ([node_A] ! 0) = Some model_A"
    by (simp add: node_A_def)
  from graph_ports [OF l d, of "[]" "options_of Horizontal" "{}"]
  obtain ports where
    p: "c_ports (g_children (graph [node_A] [] (options_of Horizontal) {}) ! 0) = Some ports"
      "length ports = length (m_schema model_A)"
      "\<forall>j < length (m_schema model_A).
                 p_id (ports ! j) = n_id ([node_A] ! 0) @ ''-'' @ f_name (m_schema model_A ! j)
               \<and> p_order (ports ! j) = j
               \<and> p_properties (ports ! j) = [(''port.side'', ''EAST'')]"
      "map_of (g_layoutOptions (graph [node_A] [] (options_of Horizontal) {})) ''elk.direction''
               = Some (if o_direction (options_of Horizontal) = Horizontal then ''RIGHT'' else ''DOWN'')"
    by blast
  have s: "length (m_schema model_A) = 2"
    by (simp add: model_A_def)
  from p(3) s have "p_id (ports ! 1) = n_id ([node_A] ! 0) @ ''-'' @ f_name (m_schema model_A ! 1)
               \<and> p_order (ports ! 1) = 1
               \<and> p_properties (ports ! 1) = [(''port.side'', ''EAST'')]"
    by simp
  then have "p_id (ports ! 1) = ''A-b'' \<and> p_order (ports ! 1) = 1
         \<and> p_properties (ports ! 1) = [(''port.side'', ''EAST'')]"
    by (simp add: node_A_def model_A_def)
  with p(1,2,4) s l d show ?thesis
    by (simp add: options_of_def)
qed

section \<open>Properties of the relayout decision\<close>

lemma update_fresh: "k \<notin> fst ` set al \<Longrightarrow> AList.update k v al = al @ [(k, v)]"
  by (induction al) auto

lemma foldl_update_distinct:
  "distinct (map fst (acc @ es)) \<Longrightarrow>
   foldl (\<lambda>m (k, v). AList.update k v m) acc es = acc @ es"
proof (induction es arbitrary: acc)
  case Nil
  then show ?case by simp
next
  case (Cons e es)
  obtain k v where e: "e = (k, v)" by (cases e)
  from Cons.prems e have "k \<notin> fst ` set acc" by auto
  then have u: "AList.update k v acc = acc @ [(k, v)]" by (rule update_fresh)
  from Cons.prems e have "distinct (map fst ((acc @ [(k, v)]) @ es))" by simp
  then have "foldl (\<lambda>m (k, v). AList.update k v m) (acc @ [(k, v)]) es = (acc @ [(k, v)]) @ es"
    by (rule Cons.IH)
  with u e show ?case by simp
qed

lemma new_Map_distinct: "distinct (map fst es) \<Longrightarrow> new_Map es = es"
  using foldl_update_distinct [of "[]" es] by (simp add: new_Map_def)

lemma strict_neq_same: "truthy w \<Longrightarrow> \<not> strict_neq w w"
  by (cases w rule: truthy.cases) auto

lemma size_differs_same: "\<not> size_differs (Some node) node"
  by (auto simp: size_differs_def Let_def strict_neq_same)

lemma some_size_differs_iff:
  "some_size_differs cache nodes \<longleftrightarrow>
     (\<exists>node \<in> set nodes. size_differs (map_of cache (n_id node)) node)"
  by (induction nodes) auto

lemma needsAutoLayout_refreshed:
  assumes "distinct (map n_id (st_nodes s))"
  shows "\<not> needsAutoLayout (relayout_effect s)"
proof -
  let ?es = "map (\<lambda>node. (n_id node, node)) (st_nodes s)"
  have d: "distinct (map fst ?es)" using assms by (simp add: comp_def)
  then have m: "new_Map ?es = ?es" by (rule new_Map_distinct)
  have "\<not> size_differs (map_of ?es (n_id node)) node" if "node \<in> set (st_nodes s)" for node
  proof -
    from that have "(n_id node, node) \<in> set ?es" by auto
    with d have "map_of ?es (n_id node) = Some node" by (simp only: map_of_eq_Some_iff)
    then show ?thesis by (simp add: size_differs_same)
  qed
  then have "\<not> some_size_differs ?es (st_nodes s)"
    by (simp add: some_size_differs_iff)
  with m show ?thesis
    by (simp add: needsAutoLayout_def relayout_effect_def)
qed

lemmas renderer_simps =
  initial_def options_of_def model_A_def unmeasured_A_def
  topology_effect_def parse_effect_def relayout_effect_def needsAutoLayout_def
  extractModelNodes_def extractModelEdges_def model_edges_def sharedEdgeProps_def
  updatedNode_def new_Map_def size_differs_def

text \<open>
  Claim C6, as stated, fails: a changed measured size does not always trigger a layout.
  After the first commit of a parsed model its node is cached without a size; when the
  node is then measured at 100 by 50, with the same edges and the same number of
  nodes, the decision is negative and no animation frame is requested.
\<close>

theorem relayout_on_size_change_counterexample:
  "st_cachedNodesMap first_measurement = [(''A'', unmeasured_A)]
   \<and> n_width unmeasured_A = None \<and> n_height unmeasured_A = None
   \<and> st_nodes first_measurement
       = [unmeasured_A\<lparr>n_width := Some (Num 100), n_height := Some (Num 50)\<rparr>]
   \<and> length (st_previousEdges first_measurement) = length (st_edges first_measurement)
   \<and> \<not> needsAutoLayout first_measurement
   \<and> st_animationFrames (step Commit first_measurement) = st_animationFrames first_measurement"
  by (simp add: first_measurement_def renderer_simps)

text \<open>
  Claim C6, amended. The relayout decision is positive exactly when the number of edges
  differs from that of the cached edges, or the number of nodes differs from the size of
  the node cache, or some node has a cached node of its id whose width is truthy and
  differs from the node's width or whose height is truthy and differs from the node's
  height; a node cached without a size triggers nothing when it is measured. One
  evaluation requests one animation frame when the decision is positive and none
  otherwise, leaves nodes and edges alone and refreshes the caches; when the node ids
  are distinct, evaluating again on the same nodes and edges decides negatively and
  requests nothing.
\<close>

theorem relayout_decision:
  "(needsAutoLayout s \<longleftrightarrow>
      length (st_previousEdges s) \<noteq> length (st_edges s)
    \<or> length (st_nodes s) \<noteq> length (st_cachedNodesMap s)
    \<or> (\<exists>node \<in> set (st_nodes s). \<exists>previousNode.
          map_of (st_cachedNodesMap s) (n_id node) = Some previousNode
        \<and> (truthy (n_width previousNode) \<and> strict_neq (n_width node) (n_width previousNode)
           \<or> truthy (n_height previousNode) \<and> strict_neq (n_height node) (n_height previousNode))))
   \<and> st_animationFrames (relayout_effect s)
       = st_animationFrames s + (if needsAutoLayout s then 1 else 0)
   \<and> st_cachedNodesMap (relayout_effect s) = new_Map (map (\<lambda>node. (n_id node, node)) (st_nodes s))
   \<and> length (st_previousEdges (relayout_effect s)) = length (st_edges s)
   \<and> st_nodes (relayout_effect s) = st_nodes s \<and> st_edges (relayout_effect s) = st_edges s
   \<and> (distinct (map n_id (st_nodes s)) \<longrightarrow>
        \<not> needsAutoLayout (relayout_effect s)
      \<and> st_animationFrames (relayout_effect (relayout_effect s))
          = st_animationFrames (relayout_effect s))"
proof -
  have sd: "size_differs p node \<longleftrightarrow>
      (\<exists>previousNode. p = Some previousNode
        \<and> (truthy (n_width previousNode) \<and> strict_neq (n_width node) (n_width previousNode)
           \<or> truthy (n_height previousNode) \<and> strict_neq (n_height node) (n_height previousNode)))"
    for p node
    by (cases p) (auto simp: size_differs_def Let_def)
  have a: "needsAutoLayout s \<longleftrightarrow>
      length (st_previousEdges s) \<noteq> length (st_edges s)
    \<or> length (st_nodes s) \<noteq> length (st_cachedNodesMap s)
    \<or> (\<exists>node \<in> set (st_nodes s). \<exists>previousNode.
          map_of (st_cachedNodesMap s) (n_id node) = Some previousNode
        \<and> (truthy (n_width previousNode) \<and> strict_neq (n_width node) (n_width previousNode)
           \<or> truthy (n_height previousNode) \<and> strict_neq (n_height node) (n_height previousNode)))"
    unfolding needsAutoLayout_def some_size_differs_iff sd by auto
  have b: "st_animationFrames (relayout_effect s)
       = st_animationFrames s + (if needsAutoLayout s then 1 else 0)"
    by (simp add: relayout_effect_def)
  have c: "st_cachedNodesMap (relayout_effect s) = new_Map (map (\<lambda>node. (n_id node, node)) (st_nodes s))"
    "length (st_previousEdges (relayout_effect s)) = length (st_edges s)"
    "st_nodes (relayout_effect s) = st_nodes s" "st_edges (relayout_effect s) = st_edges s"
    by (simp_all add: relayout_effect_def)
  have d: "\<not> needsAutoLayout (relayout_effect s)
      \<and> st_animationFrames (relayout_effect (relayout_effect s))
          = st_animationFrames (relayout_effect s)" if "distinct (map n_id (st_nodes s))"
  proof -
    from that have n: "\<not> needsAutoLayout (relayout_effect s)" by (rule needsAutoLayout_refreshed)
    then show ?thesis by (simp add: relayout_effect_def [of "relayout_effect s"])
  qed
  from a b c d show ?thesis by blast
qed

theorem relayout_decision_witness:
  "distinct (map n_id (st_nodes height_changed))
   \<and> map (\<lambda>(i, n). (i, n_width n, n_height n)) (st_cachedNodesMap height_changed)
       = [(''A'', Some (Num 100), Some (Num 50))]
   \<and> map (\<lambda>n. (n_id n, n_width n, n_height n)) (st_nodes height_changed)
       = [(''A'', Some (Num 100), Some (Num 60))]
   \<and> needsAutoLayout height_changed
   \<and> st_animationFrames (relayout_effect height_changed) = st_animationFrames height_changed + 1
   \<and> \<not> needsAutoLayout (relayout_effect height_changed)
   \<and> st_animationFrames (relayout_effect (relayout_effect height_changed))
          = st_animationFrames (relayout_effect height_changed)"
proof -
  have s: "st_nodes height_changed
             = [unmeasured_A\<lparr>n_width := Some (Num 100), n_height := Some (Num 60)\<rparr>]"
    "map (\<lambda>(i, n). (i, n_width n, n_height n)) (st_cachedNodesMap height_changed)
       = [(''A'', Some (Num 100), Some (Num 50))]"
    "length (st_previousEdges height_changed) = length (st_edges height_changed)"
    by (simp_all add: height_changed_def first_measurement_def renderer_simps)
  have d: "distinct (map n_id (st_nodes height_changed))"
    by (simp add: s)
  have n: "needsAutoLayout height_changed"
    by (simp add: height_changed_def first_measurement_def renderer_simps)
  from relayout_decision [of height_changed] d n s show ?thesis
    by (simp add: unmeasured_A_def)
qed


section \<open>Properties of the effect on the model graph\<close>

lemma join_Nil_iff: "list_all is_identifier xs \<Longrightarrow> join xs = [] \<longleftrightarrow> xs = []"
  by (induction xs rule: join.induct) (auto simp: is_identifier_def)

lemma join_colon: "CHR '':'' \<in> set (join (x # y # ys))"
  by simp

lemma split_at_colon:
  assumes "CHR '':'' \<notin> set a" "CHR '':'' \<notin> set b" "a @ CHR '':'' # r = b @ CHR '':'' # t"
  shows "a = b \<and> r = t"
proof -
  have "takeWhile (\<lambda>c. c \<noteq> CHR '':'') (a @ CHR '':'' # r) = a"
    using assms(1) by (induction a) auto
  moreover have "takeWhile (\<lambda>c. c \<noteq> CHR '':'') (b @ CHR '':'' # t) = b"
    using assms(2) by (induction b) auto
  ultimately have "a = b" using assms(3) by simp
  with assms(3) show ?thesis by simp
qed

lemma join_inj:
  "list_all is_identifier xs \<Longrightarrow> list_all is_identifier ys \<Longrightarrow> join xs = join ys \<Longrightarrow> xs = ys"
proof (induction xs arbitrary: ys rule: join.induct)
  case 1
  then show ?case using join_Nil_iff [of ys] by simp
next
  case (2 x)
  show ?case
  proof (cases ys rule: join.cases)
    case 1
    with 2 show ?thesis by (simp add: is_identifier_def)
  next
    case (2 y)
    with "2.prems" show ?thesis by simp
  next
    case (3 y z zs)
    then have "CHR '':'' \<in> set (join ys)" by simp
    with "2.prems" show ?thesis by (simp add: is_identifier_def)
  qed
next
  case (3 x x2 xs)
  show ?case
  proof (cases ys rule: join.cases)
    case 1
    with "3.prems" show ?thesis by simp
  next
    case (2 y)
    have "CHR '':'' \<in> set (join (x # x2 # xs))" by simp
    with "3.prems" 2 show ?thesis by (simp add: is_identifier_def)
  next
    case (3 y z zs)
    with "3.prems" have e: "x @ CHR '':'' # join (x2 # xs) = y @ CHR '':'' # join (z # zs)"
      by simp
    from "3.prems" 3 have "CHR '':'' \<notin> set x" "CHR '':'' \<notin> set y"
      by (simp_all add: is_identifier_def)
    from split_at_colon [OF this e] have xy: "x = y" and j: "join (x2 # xs) = join (z # zs)"
      by simp_all
    from "3.prems" 3 have "list_all is_identifier (x2 # xs)" "list_all is_identifier (z # zs)"
      by simp_all
    from "3.IH" [OF this j] xy 3 show ?thesis by simp
  qed
qed

lemma changedInternals_filter:
  assumes "list_all well_named models" "list_all well_named (map snd previousModels)"
  shows "changedInternals previousModels models
           = map m_id (filter (topology_changed previousModels) models)"
  using assms(1)
proof (induction models)
  case Nil
  then show ?case by simp
next
  case (Cons m ms)
  show ?case
  proof (cases "map_of previousModels (m_id m)")
    case None
    with Cons show ?thesis by (simp add: topology_changed_def)
  next
    case (Some p)
    then have "p \<in> set (map snd previousModels)"
      by (force dest: map_of_SomeD)
    with assms(2) have ip: "well_named p" by (auto simp: list_all_iff)
    from Cons.prems have im: "well_named m" by simp
    from ip im have "join (m_dependants p) = join (m_dependants m)
                       \<longleftrightarrow> m_dependants p = m_dependants m"
      and "join (m_dependencies p) = join (m_dependencies m)
                       \<longleftrightarrow> m_dependencies p = m_dependencies m"
      by (auto simp: well_named_def dest: join_inj)
    with Some Cons show ?thesis by (simp add: topology_changed_def Let_def)
  qed
qed

text \<open>
  Claim C8. When the source changes and the model graph is rebuilt, the ids passed to
  \<open>updateNodeInternals\<close> are, in the order of the models, the ids of exactly those models
  that were in the previous graph and whose sequence of dependants' ids or sequence of
  dependencies' ids differs from the cached one; a model with both sequences unchanged,
  or without a previous model, is not notified. The program compares the sequences
  joined with a colon, which for identifiers is the comparison of the sequences. The
  cache of previous models is then replaced by the new graph.
\<close>

theorem topology_notifications:
  assumes "list_all well_named models"
    and "list_all well_named (map snd (st_previousModels s))"
  shows "st_updateNodeInternals (step (SourceChanged models) s)
           = st_updateNodeInternals s
             @ map m_id (filter (topology_changed (st_previousModels s)) models)
       \<and> st_previousModels (step (SourceChanged models) s)
           = new_Map (map (\<lambda>model. (m_id model, model)) models)"
  using changedInternals_filter [OF assms]
  by (simp add: topology_effect_def parse_effect_def)

theorem topology_notifications_witness:
  "list_all well_named unlinked_models
   \<and> list_all well_named
       (map snd (st_previousModels (step (SourceChanged linked_models) (initial (options_of Horizontal)))))
   \<and> map fst (st_previousModels (step (SourceChanged linked_models) (initial (options_of Horizontal))))
       = [''A'', ''B'', ''C'']
   \<and> st_updateNodeInternals (step (SourceChanged linked_models) (initial (options_of Horizontal))) = []
   \<and> st_updateNodeInternals
        (step (SourceChanged unlinked_models)
           (step (SourceChanged linked_models) (initial (options_of Horizontal))))
       = [''A'', ''B'']"
proof -
  let ?s = "step (SourceChanged linked_models) (initial (options_of Horizontal))"
  have p: "st_previousModels ?s = map (\<lambda>model. (m_id model, model)) linked_models"
    "st_updateNodeInternals ?s = []"
    by (simp_all add: linked_models_def renderer_simps)
  have a: "list_all well_named unlinked_models"
    by (simp add: unlinked_models_def well_named_def is_identifier_def)
  have b: "list_all well_named (map snd (st_previousModels ?s))"
    by (simp add: linked_models_def renderer_simps well_named_def is_identifier_def)
  from topology_notifications [OF a b] a b p show ?thesis
    by (simp add: linked_models_def unlinked_models_def topology_changed_def)
qed

section \<open>Properties of the set of manually moved nodes\<close>

lemma manually_moved_step:
  "st_manuallyMovedNodesSet (step e s)
     = (case e of NodeDragStop node \<Rightarrow> insert (n_id node) (st_manuallyMovedNodesSet s)
        | _ \<Rightarrow> st_manuallyMovedNodesSet s)"
  by (cases e)
     (simp_all add: topology_effect_def parse_effect_def relayout_effect_def
        handleAutoLayout_def layout_resolved_def layout_rejected_def handleAutoFitToggle_def
        handleDirectionToggle_def handleMouseDown_def handleMove_def handleNodeDragStop_def
        Let_def)

lemma run_moved: "st_manuallyMovedNodesSet s \<subseteq> st_manuallyMovedNodesSet (run es s)"
proof (induction es arbitrary: s)
  case Nil
  then show ?case by simp
next
  case (Cons e es)
  have "st_manuallyMovedNodesSet s \<subseteq> st_manuallyMovedNodesSet (step e s)"
    by (simp add: manually_moved_step split: event.splits) blast
  with Cons [of "step e s"] show ?case by auto
qed


text \<open>
  Claim C10. Of everything that can happen to a renderer, only the end of a node drag
  changes the set of manually moved nodes, and it adds the id of the dragged node; so
  the set only grows along any sequence of events, and a node whose id is in the set
  keeps, in every layout delivered later, the position it had in the nodes that layout
  was requested for.
\<close>

theorem pinned_stays_pinned:
  "st_manuallyMovedNodesSet (step e s)
     = (case e of NodeDragStop node \<Rightarrow> insert (n_id node) (st_manuallyMovedNodesSet s)
        | _ \<Rightarrow> st_manuallyMovedNodesSet s)
   \<and> st_manuallyMovedNodesSet s \<subseteq> st_manuallyMovedNodesSet (run es s)
   \<and> (\<forall>i \<in> st_manuallyMovedNodesSet s.
        \<forall>k < length (st_inFlight (run es s)).
        \<forall>j < length (pl_nodes (st_inFlight (run es s) ! k)).
          n_id (pl_nodes (st_inFlight (run es s) ! k) ! j) = i \<longrightarrow>
          n_position (st_nodes (step (LayoutResolved k layoutedGraph) (run es s)) ! j)
            = n_position (pl_nodes (st_inFlight (run es s) ! k) ! j))"
proof -
  have a: "st_manuallyMovedNodesSet (step e s)
     = (case e of NodeDragStop node \<Rightarrow> insert (n_id node) (st_manuallyMovedNodesSet s)
        | _ \<Rightarrow> st_manuallyMovedNodesSet s)"
    by (rule manually_moved_step)
  have b: "st_manuallyMovedNodesSet s \<subseteq> st_manuallyMovedNodesSet (run es s)"
    by (rule run_moved)
  have c: "n_position (st_nodes (step (LayoutResolved k layoutedGraph) (run es s)) ! j)
            = n_position (pl_nodes (st_inFlight (run es s) ! k) ! j)"
    if "i \<in> st_manuallyMovedNodesSet s" "k < length (st_inFlight (run es s))"
      "j < length (pl_nodes (st_inFlight (run es s) ! k))"
      "n_id (pl_nodes (st_inFlight (run es s) ! k) ! j) = i" for i k j
  proof -
    from that(1,4) b have "n_id (pl_nodes (st_inFlight (run es s) ! k) ! j)
                            \<in> st_manuallyMovedNodesSet (run es s)"
      by auto
    with that(2,3) show ?thesis
      by (simp add: layout_resolved_def layouted_def Let_def layouted_node_position)
  qed
  from a b c show ?thesis by blast
qed

theorem pinned_stays_pinned_witness:
  "''A'' \<in> st_manuallyMovedNodesSet dragged
   \<and> st_manuallyMovedNodesSet (run [Mounted, DirectionToggle] dragged) = {''A''}
   \<and> map pl_nodes (st_inFlight (run [Mounted, DirectionToggle] dragged))
       = [[unmeasured_A], [unmeasured_A]]
   \<and> n_position (st_nodes (step (LayoutResolved 1 (one_child ''A'' None None))
                              (run [Mounted, DirectionToggle] dragged)) ! 0)
       = \<lparr>pos_x = Num (- 1), pos_y = Num (- 1)\<rparr>"
proof -
  let ?s = "run [Mounted, DirectionToggle] dragged"
  have m: "st_manuallyMovedNodesSet dragged = {''A''}"
    by (simp add: dragged_def renderer_simps handleNodeDragStop_def handleAutoLayout_def
          nodeToLayout_def Let_def)
  have r: "st_manuallyMovedNodesSet ?s = {''A''}"
    and f: "map pl_nodes (st_inFlight ?s) = [[unmeasured_A], [unmeasured_A]]"
    by (simp_all add: dragged_def renderer_simps handleNodeDragStop_def handleAutoLayout_def
          handleDirectionToggle_def nodeToLayout_def Let_def)
  from f have l: "length (st_inFlight ?s) = 2"
    by (metis length_map length_Cons list.size(3) numeral_2_eq_2)
  from f l have n: "pl_nodes (st_inFlight ?s ! 1) = [unmeasured_A]"
    by (metis nth_map nth_Cons_0 nth_Cons_Suc One_nat_def lessI numeral_2_eq_2)
  from pinned_stays_pinned [of _ dragged "[Mounted, DirectionToggle]" "one_child ''A'' None None"]
  have "\<forall>i \<in> st_manuallyMovedNodesSet dragged.
        \<forall>k < length (st_inFlight ?s).
        \<forall>j < length (pl_nodes (st_inFlight ?s ! k)).
          n_id (pl_nodes (st_inFlight ?s ! k) ! j) = i \<longrightarrow>
          n_position (st_nodes (step (LayoutResolved k (one_child ''A'' None None)) ?s) ! j)
            = n_position (pl_nodes (st_inFlight ?s ! k) ! j)"
    by blast
  with m l n
  have "n_position (st_nodes (step (LayoutResolved 1 (one_child ''A'' None None)) ?s) ! 0)
       = n_position unmeasured_A"
    by (simp add: unmeasured_A_def)
  with m f r show ?thesis
    by (simp add: unmeasured_A_def)
qed

section \<open>Properties of the graph of models\<close>

subsection \<open>The model against the test file\<close>

lemmas parser_simps =
  getModels_def build_model_def link_def placeholder_def classify_def resolve_def
  schema_references_def field_references_def Set_add_def Let_def

lemma test_top_level:
  "getModels top_level =
    [\<lparr>m_id = ''A'', m_name = ''A'',
      m_schema = [\<lparr>f_name = ''a'', f_type = Plain (Literal ''string'')\<rparr>],
      m_dependencies = [], m_dependants = []\<rparr>,
     \<lparr>m_id = ''B'', m_name = ''B'',
      m_schema = [\<lparr>f_name = ''b'', f_type = Plain (Literal ''string'')\<rparr>],
      m_dependencies = [], m_dependants = []\<rparr>]"
  by (simp add: top_level_def parser_simps)

lemma test_alias_not_literal:
  "getModels alias_not_literal =
    [\<lparr>m_id = ''A'', m_name = ''A'', m_schema = [],
      m_dependencies = [], m_dependants = [''B'']\<rparr>,
     \<lparr>m_id = ''B'', m_name = ''B'',
      m_schema = [\<lparr>f_name = ''field'', f_type = Plain (ModelRef ''A'')\<rparr>],
      m_dependencies = [''A''], m_dependants = []\<rparr>]"
  by (simp add: alias_not_literal_def parser_simps)

lemma test_arrays_of_primitives:
  "getModels arrays_of_primitives =
    [\<lparr>m_id = ''A'', m_name = ''A'',
      m_schema = [\<lparr>f_name = ''a'', f_type = Array (Literal ''string'')\<rparr>],
      m_dependencies = [], m_dependants = []\<rparr>]"
  by (simp add: arrays_of_primitives_def parser_simps)

lemma test_arrays_of_models:
  "getModels arrays_of_models =
    [\<lparr>m_id = ''A'', m_name = ''A'',
      m_schema = [\<lparr>f_name = ''a'', f_type = Array (ModelRef ''B'')\<rparr>],
      m_dependencies = [''B''], m_dependants = []\<rparr>,
     \<lparr>m_id = ''B'', m_name = ''B'',
      m_schema = [\<lparr>f_name = ''b'', f_type = Plain (Literal ''string'')\<rparr>],
      m_dependencies = [], m_dependants = [''A'']\<rparr>]"
  by (simp add: arrays_of_models_def parser_simps)

lemma test_self_reference:
  "getModels self_reference =
    [\<lparr>m_id = ''Item'', m_name = ''Item'',
      m_schema = [\<lparr>f_name = ''value'', f_type = Plain (Literal ''number'')\<rparr>,
                  \<lparr>f_name = ''next'', f_type = Plain (ModelRef ''Item'')\<rparr>],
      m_dependencies = [''Item''], m_dependants = [''Item'']\<rparr>]"
  by (simp add: self_reference_def parser_simps)


subsection \<open>The two passes in closed form\<close>

lemma foldl_link:
  "foldl (link s) ms ts =
     map (\<lambda>m. m\<lparr>m_dependencies := (if m_id m = s then m_dependencies m @ ts else m_dependencies m),
                 m_dependants := m_dependants m
                    @ concat (map (\<lambda>t. if t = m_id m then [s] else []) ts)\<rparr>) ms"
proof (induction ts arbitrary: ms)
  case Nil
  show ?case by (simp add: map_idI)
next
  case (Cons t ts)
  show ?case
    unfolding foldl_Cons Cons.IH
    by (simp add: link_def comp_def)
qed

lemma build_model_built:
  assumes "distinct (map d_name ds)" "d \<in> set ds" "d_name d \<notin> d_name ` set prior"
  shows "build_model (map d_name ds) (built ds prior) d = built ds (prior @ [d])"
proof -
  have same: "d0 = d" if "d0 \<in> set ds" "d_name d0 = d_name d" for d0
    using assms(1,2) that by (meson distinct_map inj_onD)
  show ?thesis
    unfolding build_model_def Let_def foldl_link schema_of_def [symmetric]
    unfolding built_def map_map
  proof (rule map_cong [OF refl])
    fix d0 assume "d0 \<in> set ds"
    show "((\<lambda>m. m\<lparr>m_dependencies := if m_id m = d_name d
                        then m_dependencies m @ schema_references (schema_of ds d)
                        else m_dependencies m,
                   m_dependants := m_dependants m @
                        concat (map (\<lambda>t. if t = m_id m then [d_name d] else [])
                           (schema_references (schema_of ds d)))\<rparr>) \<circ>
           ((\<lambda>m. if m_id m = d_name d then m\<lparr>m_schema := schema_of ds d\<rparr> else m) \<circ>
            (\<lambda>d. \<lparr>m_id = d_name d, m_name = d_name d,
               m_schema = if d_name d \<in> d_name ` set prior then schema_of ds d else [],
               m_dependencies = if d_name d \<in> d_name ` set prior
                  then schema_references (schema_of ds d) else [],
               m_dependants = concat (map (\<lambda>d'. concat (map (\<lambda>t. if t = d_name d then [d_name d'] else [])
                              (schema_references (schema_of ds d')))) prior)\<rparr>))) d0
        = \<lparr>m_id = d_name d0, m_name = d_name d0,
           m_schema = if d_name d0 \<in> d_name ` set (prior @ [d]) then schema_of ds d0 else [],
           m_dependencies = if d_name d0 \<in> d_name ` set (prior @ [d])
                  then schema_references (schema_of ds d0) else [],
           m_dependants = concat (map (\<lambda>d'. concat (map (\<lambda>t. if t = d_name d0 then [d_name d'] else [])
                              (schema_references (schema_of ds d')))) (prior @ [d]))\<rparr>"
    proof (cases "d_name d0 = d_name d")
      case True
      with same [OF \<open>d0 \<in> set ds\<close>] have "d0 = d" by simp
      with assms(3) show ?thesis by simp
    next
      case False
      then show ?thesis by simp
    qed
  qed
qed

lemma foldl_build_model:
  assumes "distinct (map d_name ds)"
  shows "set rest \<subseteq> set ds \<Longrightarrow> distinct (map d_name (prior @ rest)) \<Longrightarrow>
         foldl (build_model (map d_name ds)) (built ds prior) rest = built ds (prior @ rest)"
proof (induction rest arbitrary: prior)
  case Nil
  then show ?case by simp
next
  case (Cons d rest)
  from Cons.prems have "d \<in> set ds" "d_name d \<notin> d_name ` set prior" by auto
  then have "build_model (map d_name ds) (built ds prior) d = built ds (prior @ [d])"
    by (rule build_model_built [OF assms])
  moreover from Cons.prems have "set rest \<subseteq> set ds" "distinct (map d_name ((prior @ [d]) @ rest))"
    by auto
  then have "foldl (build_model (map d_name ds)) (built ds (prior @ [d])) rest
               = built ds ((prior @ [d]) @ rest)"
    by (rule Cons.IH)
  ultimately show ?case by simp
qed

lemma getModels_built:
  assumes "distinct (map d_name ds)"
  shows "getModels ds = built ds ds"
proof -
  have "map placeholder ds = built ds []"
    by (simp add: built_def placeholder_def)
  with foldl_build_model [OF assms, of ds "[]"] assms show ?thesis
    by (simp add: getModels_def)
qed


lemma set_foldl_Set_add: "set (foldl Set_add acc xs) = set acc \<union> set xs"
  by (induction xs arbitrary: acc) (auto simp: Set_add_def)


lemma set_model_ids: "set (model_ids ts) = {t. ModelRef t \<in> set ts}"
  by (induction ts rule: model_ids.induct) auto

lemma resolves_to_references: "resolves_to ft i \<longleftrightarrow> i \<in> set (references ft)"
  by (cases ft) (auto simp: set_model_ids)

lemma set_field_references: "set (field_references f) = {i. resolves_to (f_type f) i}"
  by (auto simp: field_references_def set_foldl_Set_add resolves_to_references)


lemma set_schema_references:
  "set (schema_references schema) = {i. \<exists>f \<in> set schema. resolves_to (f_type f) i}"
  by (auto simp: schema_references_def set_field_references)

lemma resolves_to_classify:
  "resolves_to (f_type (classify names rf)) i \<Longrightarrow> i \<in> set names"
  by (auto simp: classify_def resolve_def split: raw_type.splits if_splits)

lemma schema_references_declared:
  "i \<in> set (schema_references (schema_of ds d)) \<Longrightarrow> i \<in> d_name ` set ds"
  by (auto simp: set_schema_references schema_of_def dest: resolves_to_classify)




lemma getModels_graph:
  assumes "distinct (map d_name ds)"
  shows "getModels ds =
    map (\<lambda>d. \<lparr>m_id = d_name d, m_name = d_name d, m_schema = schema_of ds d,
              m_dependencies = schema_references (schema_of ds d),
              m_dependants = dependants_of ds (d_name d)\<rparr>) ds"
  unfolding getModels_built [OF assms] built_def dependants_of_def
proof (rule map_cong [OF refl])
  fix d assume "d \<in> set ds"
  then have "d_name d \<in> d_name ` set ds" by (rule imageI)
  then show "\<lparr>m_id = d_name d, m_name = d_name d,
         m_schema = if d_name d \<in> d_name ` set ds then schema_of ds d else [],
         m_dependencies = if d_name d \<in> d_name ` set ds
            then schema_references (schema_of ds d) else [],
         m_dependants = concat (map (\<lambda>d'. concat (map (\<lambda>t. if t = d_name d then [d_name d'] else [])
                                      (schema_references (schema_of ds d')))) ds)\<rparr>
    = \<lparr>m_id = d_name d, m_name = d_name d, m_schema = schema_of ds d,
            m_dependencies = schema_references (schema_of ds d),
            m_dependants = concat (map (\<lambda>d'. concat (map (\<lambda>t. if t = d_name d then [d_name d'] else [])
                                      (schema_references (schema_of ds d')))) ds)\<rparr>"
    by (simp only: if_True)
qed

lemma set_dependants_of:
  "set (dependants_of ds i) = {d_name d' | d'. d' \<in> set ds \<and> i \<in> set (schema_references (schema_of ds d'))}"
  by (auto simp: dependants_of_def)





subsection \<open>The claims about the graph\<close>

text \<open>
  Claim C2. In the graph built from declarations with distinct names, whenever a field
  of a model \<open>X\<close> resolves to the model named \<open>i\<close> (directly, as the element of an array
  or as an argument of a generic), \<open>i\<close> is among the dependencies of \<open>X\<close>, a model
  with the id \<open>i\<close> is in the graph, and \<open>X\<close> is among its dependants; \<open>X\<close> may be that
  model itself.
\<close>

theorem adjacency_mirrored:
  assumes "distinct (map d_name ds)"
    and "X \<in> set (getModels ds)"
    and "f \<in> set (m_schema X)"
    and "resolves_to (f_type f) i"
  shows "i \<in> set (m_dependencies X)
       \<and> (\<exists>Y \<in> set (getModels ds). m_id Y = i)
       \<and> (\<forall>Y \<in> set (getModels ds). m_id Y = i \<longrightarrow> m_id X \<in> set (m_dependants Y))"
proof -
  from assms(2) obtain d where d: "d \<in> set ds"
    and X: "X = \<lparr>m_id = d_name d, m_name = d_name d, m_schema = schema_of ds d,
              m_dependencies = schema_references (schema_of ds d),
              m_dependants = dependants_of ds (d_name d)\<rparr>"
    unfolding getModels_graph [OF assms(1)] by auto
  from assms(3,4) X have i: "i \<in> set (schema_references (schema_of ds d))"
    by (auto simp: set_schema_references)
  then have a: "i \<in> set (m_dependencies X)"
    by (simp add: X)
  from i have "i \<in> d_name ` set ds"
    by (rule schema_references_declared)
  then have b: "\<exists>Y \<in> set (getModels ds). m_id Y = i"
    unfolding getModels_graph [OF assms(1)] by auto
  have c: "m_id X \<in> set (m_dependants Y)" if "Y \<in> set (getModels ds)" "m_id Y = i" for Y
    using that d i unfolding getModels_graph [OF assms(1)]
    by (auto simp: X set_dependants_of)
  from a b c show ?thesis by blast
qed

theorem adjacency_mirrored_witness:
  "distinct (map d_name self_reference)
   \<and> resolves_to (Plain (ModelRef ''Item'')) ''Item''
   \<and> ''Item'' \<in> set (m_dependencies (getModels self_reference ! 0))
   \<and> ''Item'' \<in> set (m_dependants (getModels self_reference ! 0))
   \<and> distinct (map d_name arrays_of_models)
   \<and> resolves_to (Array (ModelRef ''B'')) ''B''
   \<and> ''B'' \<in> set (m_dependencies (getModels arrays_of_models ! 0))
   \<and> ''A'' \<in> set (m_dependants (getModels arrays_of_models ! 1))"
proof -
  let ?X = "getModels self_reference ! 0"
  let ?f = "\<lparr>f_name = ''next'', f_type = Plain (ModelRef ''Item'')\<rparr>"
  have d: "distinct (map d_name self_reference)"
    by (simp add: self_reference_def)
  have X: "?X \<in> set (getModels self_reference)"
    by (simp add: test_self_reference)
  have f: "?f \<in> set (m_schema ?X)"
    by (simp add: test_self_reference)
  have r: "resolves_to (f_type ?f) ''Item''"
    by simp
  from adjacency_mirrored [OF d X f r] X
  have s: "''Item'' \<in> set (m_dependencies ?X) \<and> ''Item'' \<in> set (m_dependants ?X)"
    by (simp add: test_self_reference)
  let ?A = "getModels arrays_of_models ! 0"
  let ?B = "getModels arrays_of_models ! 1"
  let ?g = "\<lparr>f_name = ''a'', f_type = Array (ModelRef ''B'')\<rparr>"
  have d': "distinct (map d_name arrays_of_models)"
    by (simp add: arrays_of_models_def)
  have A: "?A \<in> set (getModels arrays_of_models)" and B: "?B \<in> set (getModels arrays_of_models)"
    by (simp_all add: test_arrays_of_models)
  have g: "?g \<in> set (m_schema ?A)"
    by (simp add: test_arrays_of_models)
  have r': "resolves_to (f_type ?g) ''B''"
    by simp
  from adjacency_mirrored [OF d' A g r'] B
  have "''B'' \<in> set (m_dependencies ?A) \<and> ''A'' \<in> set (m_dependants ?B)"
    by (simp add: test_arrays_of_models)
  with s d d' show ?thesis
    by simp
qed




text \<open>
  Claim C7. In the graph built from declarations with distinct names, a property whose
  type is a bare name that some declaration has becomes, at its index in the schema, a
  direct reference to the model of that name, whatever the fields of that declaration
  are (none, for an alias of a primitive type); the model is among the dependencies of
  the referring model, which is among its dependants.
\<close>

theorem named_type_is_model_reference:
  assumes "distinct (map d_name ds)"
    and "d \<in> set ds"
    and "k < length (d_fields d)"
    and "rf_type (d_fields d ! k) = NamedType t"
    and "t \<in> d_name ` set ds"
  shows "\<exists>X \<in> set (getModels ds). \<exists>Y \<in> set (getModels ds).
           m_id X = d_name d \<and> m_id Y = t
         \<and> length (m_schema X) = length (d_fields d)
         \<and> m_schema X ! k = \<lparr>f_name = rf_name (d_fields d ! k), f_type = Plain (ModelRef t)\<rparr>
         \<and> t \<in> set (m_dependencies X)
         \<and> d_name d \<in> set (m_dependants Y)"
proof -
  let ?mk = "\<lambda>d. \<lparr>m_id = d_name d, m_name = d_name d, m_schema = schema_of ds d,
              m_dependencies = schema_references (schema_of ds d),
              m_dependants = dependants_of ds (d_name d)\<rparr>"
  from assms(5) obtain dt where dt: "dt \<in> set ds" "d_name dt = t" by auto
  have f: "schema_of ds d ! k = \<lparr>f_name = rf_name (d_fields d ! k), f_type = Plain (ModelRef t)\<rparr>"
    using assms(3,4,5) by (simp add: schema_of_def classify_def resolve_def)
  from assms(3) have "schema_of ds d ! k \<in> set (schema_of ds d)"
    by (simp add: schema_of_def)
  with f have i: "t \<in> set (schema_references (schema_of ds d))"
    by (force simp: set_schema_references)
  with assms(2) have "d_name d \<in> set (dependants_of ds t)"
    by (auto simp: set_dependants_of)
  with f i dt have "m_id (?mk d) = d_name d \<and> m_id (?mk dt) = t
         \<and> length (m_schema (?mk d)) = length (d_fields d)
         \<and> m_schema (?mk d) ! k = \<lparr>f_name = rf_name (d_fields d ! k), f_type = Plain (ModelRef t)\<rparr>
         \<and> t \<in> set (m_dependencies (?mk d))
         \<and> d_name d \<in> set (m_dependants (?mk dt))"
    by (simp add: schema_of_def)
  moreover from assms(2) dt(1) have "?mk d \<in> set (getModels ds)" "?mk dt \<in> set (getModels ds)"
    unfolding getModels_graph [OF assms(1)] by auto
  ultimately show ?thesis by blast
qed


theorem named_type_is_model_reference_witness:
  "distinct (map d_name alias_not_literal)
   \<and> d_fields (alias_not_literal ! 0) = []
   \<and> rf_type (d_fields (alias_not_literal ! 1) ! 0) = NamedType ''A''
   \<and> (\<exists>X \<in> set (getModels alias_not_literal). \<exists>Y \<in> set (getModels alias_not_literal).
           m_id X = ''B'' \<and> m_id Y = ''A''
         \<and> m_schema X = [\<lparr>f_name = ''field'', f_type = Plain (ModelRef ''A'')\<rparr>]
         \<and> m_schema Y = []
         \<and> m_dependencies X = [''A'']
         \<and> m_dependants Y = [''B''])"
proof -
  let ?d = "alias_not_literal ! 1"
  have d: "distinct (map d_name alias_not_literal)"
    by (simp add: alias_not_literal_def)
  have m: "?d \<in> set alias_not_literal"
    by (simp add: alias_not_literal_def)
  have k: "0 < length (d_fields ?d)"
    by (simp add: alias_not_literal_def)
  have t: "rf_type (d_fields ?d ! 0) = NamedType ''A''"
    by (simp add: alias_not_literal_def)
  have n: "''A'' \<in> d_name ` set alias_not_literal"
    by (simp add: alias_not_literal_def)
  from named_type_is_model_reference [OF d m k t n]
  have "\<exists>X \<in> set (getModels alias_not_literal). \<exists>Y \<in> set (getModels alias_not_literal).
           m_id X = ''B'' \<and> m_id Y = ''A''
         \<and> m_schema X = [\<lparr>f_name = ''field'', f_type = Plain (ModelRef ''A'')\<rparr>]
         \<and> m_schema Y = []
         \<and> m_dependencies X = [''A'']
         \<and> m_dependants Y = [''B'']"
    unfolding test_alias_not_literal by (auto simp: alias_not_literal_def)
  with d t show ?thesis
    by (simp add: alias_not_literal_def)
qed


end
